theory Spec2Isabelle
  imports Complex_Main "HOL-Library.AList"
begin

section \<open>Settings, sentinel dictionaries and the remote store client\<close>

text \<open>
  The module \<^verbatim>\<open>_client_manager.py\<close> holds two classes: the wrapper of one endpoint's
  store client (\<^verbatim>\<open>_ConfigurationClientWrapper\<close>) with the change-detection protocol,
  and \<^verbatim>\<open>ConfigurationClientManager\<close>, the pool of wrappers. This first part models
  the change-detection methods of the wrapper.

  A Python \<^verbatim>\<open>dict\<close> keeps insertion order, so a sentinel dictionary is an association
  list; \<^verbatim>\<open>d[k] = v\<close> is \<^const>\<open>AList.update\<close>: it overwrites the entry in place when
  the key is present and appends a new entry otherwise. Labels and etags may be
  \<^verbatim>\<open>None\<close>.
\<close>

type_synonym label = "string option"
type_synonym etag = "string option"
type_synonym headers = "(string \<times> string) list"
type_synonym sentinel_key = "string \<times> label"
type_synonym sentinel_dict = "(sentinel_key \<times> etag) list"
type_synonym ref = nat

text \<open>
  Exceptions are values. \<open>HttpResponseError\<close> carries \<^verbatim>\<open>status_code\<close> (which the
  SDK leaves \<^verbatim>\<open>None\<close> when there is no response); \<open>ClientError\<close> stands for any other
  exception the SDK client raises (a connection failure, say).
\<close>

datatype error =
    HttpResponseError "nat option"
  | ClientError string
  | JSONDecodeError
  | AttributeError
  | ValueError
  | TypeError
  | IndexError

text \<open>
  Of a feature filter (a dictionary) the code reads only \<^verbatim>\<open>filter.get("name")\<close>.
  A setting is a \<^verbatim>\<open>ConfigurationSetting\<close> or its subclass
  \<^verbatim>\<open>FeatureFlagConfigurationSetting\<close>, which alone has the attribute \<^verbatim>\<open>filters\<close>.
\<close>

datatype feature_filter = Filter (filter_get_name: "string option")

datatype setting_class =
    ConfigurationSetting
  | FeatureFlagConfigurationSetting "feature_filter list option"

record setting =
  key :: string
  label :: label
  etag :: etag
  setting_value :: string
  setting_class :: setting_class

record SettingSelector =
  key_filter :: string
  label_filter :: string

text \<open>
  The store client \<^verbatim>\<open>self._client\<close> is an external collaborator. Its answers are
  parameters of the model; they may depend on the requests made so far, which are
  logged in the state. \<^verbatim>\<open>get_configuration_setting\<close> with
  \<^verbatim>\<open>MatchConditions.IfModified\<close> returns the setting, returns \<^verbatim>\<open>None\<close> (not modified)
  or raises. \<^verbatim>\<open>list_configuration_settings\<close> returns a lazy pager: iterating it
  yields some settings and then either ends or raises.
\<close>

datatype call =
    GetCall string label etag headers
  | ListCall string string

record transport =
  client_get_configuration_setting ::
    "call list \<Rightarrow> string \<Rightarrow> label \<Rightarrow> etag \<Rightarrow> headers \<Rightarrow> error + setting option"
  client_list_configuration_settings ::
    "call list \<Rightarrow> string \<Rightarrow> string \<Rightarrow> setting list \<times> error option"

text \<open>
  The state: the sentinel dictionaries that callers own, each at an address (Python
  passes them by reference), and the log of requests sent to the store.
\<close>

record state =
  heap :: "ref \<Rightarrow> sentinel_dict"
  calls :: "call list"

section \<open>The conditional sentinel check\<close>

text \<open>
  \<^verbatim>\<open>_ConfigurationClientWrapper._check_configuration_setting\<close>, lines 108 to 141.
  The parameters \<open>k\<close>, \<open>l\<close>, \<open>e\<close> and \<open>hs\<close> are the source's \<^verbatim>\<open>key\<close>, \<^verbatim>\<open>label\<close>,
  \<^verbatim>\<open>etag\<close> and \<^verbatim>\<open>headers\<close> (the first three names are taken by the fields of a
  setting). A 404 with an etag returns on line 138; a 404 without one falls through to
  line 141; any other exception is raised again on line 140, or was never caught.
\<close>

definition check_configuration_setting ::
  "transport \<Rightarrow> string \<Rightarrow> label \<Rightarrow> etag \<Rightarrow> headers \<Rightarrow> state
    \<Rightarrow> (error + bool \<times> setting option) \<times> state" where
  "check_configuration_setting T k l e hs s =
     (let s' = s\<lparr>calls := calls s @ [GetCall k l e hs]\<rparr> in
      case client_get_configuration_setting T (calls s) k l e hs of
        Inr (Some updated_sentinel) \<Rightarrow> (Inr (True, Some updated_sentinel), s')
      | Inr None \<Rightarrow> (Inr (False, None), s')
      | Inl (HttpResponseError status_code) \<Rightarrow>
          if status_code = Some 404 then
            (if e \<noteq> None then (Inr (True, None), s') else (Inr (False, None), s'))
          else (Inl (HttpResponseError status_code), s')
      | Inl err \<Rightarrow> (Inl err, s'))"

section \<open>Loading configuration settings\<close>

text \<open>
  \<^verbatim>\<open>load_configuration_settings\<close>, lines 144 to 164. The keyword argument
  \<^verbatim>\<open>sentinel_keys\<close> is popped with the default \<^verbatim>\<open>refresh_on\<close>: without it the name
  \<^verbatim>\<open>sentinel_keys\<close> is bound to the caller's dictionary itself, not to a copy. The
  \<^verbatim>\<open>isinstance\<close> test on line 154 guards a \<^verbatim>\<open>pass\<close> and has no effect.
  The membership test on line 162 reads the dictionary \<^verbatim>\<open>refresh_on\<close> as it is at that
  moment; the assignment on line 163 writes the dictionary \<^verbatim>\<open>sentinel_keys\<close>.
\<close>

definition dict_contains :: "('k \<times> 'v) list \<Rightarrow> 'k \<Rightarrow> bool" where
  "dict_contains d k = (k \<in> set (map fst d))"

fun load_configurations ::
  "ref \<Rightarrow> ref \<Rightarrow> setting list \<Rightarrow> setting list \<Rightarrow> state \<Rightarrow> setting list \<times> state" where
  "load_configurations refresh_on sentinel_keys [] configuration_settings s =
     (configuration_settings, s)"
| "load_configurations refresh_on sentinel_keys (config # configurations) configuration_settings s =
     load_configurations refresh_on sentinel_keys configurations
       (configuration_settings @ [config])
       (if dict_contains (heap s refresh_on) (key config, label config)
        then s\<lparr>heap := (heap s)(sentinel_keys :=
               AList.update (key config, label config) (etag config) (heap s sentinel_keys))\<rparr>
        else s)"

fun load_selects ::
  "transport \<Rightarrow> ref \<Rightarrow> ref \<Rightarrow> SettingSelector list \<Rightarrow> setting list \<Rightarrow> state
    \<Rightarrow> (error + setting list) \<times> state" where
  "load_selects T refresh_on sentinel_keys [] configuration_settings s =
     (Inr configuration_settings, s)"
| "load_selects T refresh_on sentinel_keys (select # selects) configuration_settings s =
     (case client_list_configuration_settings T (calls s) (key_filter select) (label_filter select) of
        (configurations, raised) \<Rightarrow>
          (case load_configurations refresh_on sentinel_keys configurations configuration_settings
                  (s\<lparr>calls := calls s @ [ListCall (key_filter select) (label_filter select)]\<rparr>) of
             (configuration_settings', s') \<Rightarrow>
               (case raised of
                  Some err \<Rightarrow> (Inl err, s')
                | None \<Rightarrow> load_selects T refresh_on sentinel_keys selects configuration_settings' s')))"

definition load_configuration_settings ::
  "transport \<Rightarrow> SettingSelector list \<Rightarrow> ref \<Rightarrow> ref option \<Rightarrow> state
    \<Rightarrow> (error + setting list \<times> ref) \<times> state" where
  "load_configuration_settings T selects refresh_on kw_sentinel_keys s =
     (let sentinel_keys = (case kw_sentinel_keys of None \<Rightarrow> refresh_on | Some r \<Rightarrow> r) in
      case load_selects T refresh_on sentinel_keys selects [] s of
        (Inl err, s') \<Rightarrow> (Inl err, s')
      | (Inr configuration_settings, s') \<Rightarrow> (Inr (configuration_settings, sentinel_keys), s'))"

section \<open>Loading feature flags\<close>

text \<open>
  \<^verbatim>\<open>load_feature_flags\<close>, lines 167 to 194. The names imported from
  \<^verbatim>\<open>_constants\<close> are parameters, and so is \<^verbatim>\<open>json.loads\<close>. The two dictionaries
  and the list are created by the call, so they are plain values here; an exception
  discards them, so the order of the append, the sentinel update and the access to
  \<^verbatim>\<open>filters\<close> within one iteration does not show. \<^verbatim>\<open>filter.get("name")\<close> may be
  \<^verbatim>\<open>None\<close>, which is in none of the name lists.
\<close>

record constants =
  FEATURE_FLAG_PREFIX :: string
  PERCENTAGE_FILTER_NAMES :: "string list"
  TIME_WINDOW_FILTER_NAMES :: "string list"
  TARGETING_FILTER_NAMES :: "string list"
  CUSTOM_FILTER_KEY :: string
  PERCENTAGE_FILTER_KEY :: string
  TIME_WINDOW_FILTER_KEY :: string
  TARGETING_FILTER_KEY :: string

definition name_in :: "string option \<Rightarrow> string list \<Rightarrow> bool" where
  "name_in n names = (case n of None \<Rightarrow> False | Some x \<Rightarrow> x \<in> set names)"

fun classify_filters ::
  "constants \<Rightarrow> feature_filter list \<Rightarrow> (string \<times> bool) list \<Rightarrow> (string \<times> bool) list" where
  "classify_filters C [] filters_used = filters_used"
| "classify_filters C (f # fs) filters_used =
     classify_filters C fs
       (if name_in (filter_get_name f) (PERCENTAGE_FILTER_NAMES C)
          then AList.update (PERCENTAGE_FILTER_KEY C) True filters_used
        else if name_in (filter_get_name f) (TIME_WINDOW_FILTER_NAMES C)
          then AList.update (TIME_WINDOW_FILTER_KEY C) True filters_used
        else if name_in (filter_get_name f) (TARGETING_FILTER_NAMES C)
          then AList.update (TARGETING_FILTER_KEY C) True filters_used
        else AList.update (CUSTOM_FILTER_KEY C) True filters_used)"

fun load_flags ::
  "constants \<Rightarrow> (string \<Rightarrow> error + 'j) \<Rightarrow> bool \<Rightarrow> setting list
    \<Rightarrow> 'j list \<times> sentinel_dict \<times> (string \<times> bool) list
    \<Rightarrow> error + 'j list \<times> sentinel_dict \<times> (string \<times> bool) list" where
  "load_flags C json_loads feature_flag_refresh_enabled [] acc = Inr acc"
| "load_flags C json_loads feature_flag_refresh_enabled (feature_flag # feature_flags)
       (loaded_feature_flags, feature_flag_sentinel_keys, filters_used) =
     (case json_loads (setting_value feature_flag) of
        Inl err \<Rightarrow> Inl err
      | Inr parsed \<Rightarrow>
          (case setting_class feature_flag of
             ConfigurationSetting \<Rightarrow> Inl AttributeError
           | FeatureFlagConfigurationSetting flag_filters \<Rightarrow>
               load_flags C json_loads feature_flag_refresh_enabled feature_flags
                 (loaded_feature_flags @ [parsed],
                  (if feature_flag_refresh_enabled
                   then AList.update (key feature_flag, label feature_flag) (etag feature_flag)
                          feature_flag_sentinel_keys
                   else feature_flag_sentinel_keys),
                  (case flag_filters of
                     None \<Rightarrow> filters_used
                   | Some fs \<Rightarrow> classify_filters C fs filters_used))))"

fun load_flag_selects ::
  "transport \<Rightarrow> constants \<Rightarrow> (string \<Rightarrow> error + 'j) \<Rightarrow> bool \<Rightarrow> SettingSelector list
    \<Rightarrow> 'j list \<times> sentinel_dict \<times> (string \<times> bool) list \<Rightarrow> state
    \<Rightarrow> (error + 'j list \<times> sentinel_dict \<times> (string \<times> bool) list) \<times> state" where
  "load_flag_selects T C json_loads feature_flag_refresh_enabled [] acc s = (Inr acc, s)"
| "load_flag_selects T C json_loads feature_flag_refresh_enabled (select # selects) acc s =
     (case client_list_configuration_settings T (calls s)
             (FEATURE_FLAG_PREFIX C @ key_filter select) (label_filter select) of
        (feature_flags, raised) \<Rightarrow>
          (let s' = s\<lparr>calls := calls s @
                      [ListCall (FEATURE_FLAG_PREFIX C @ key_filter select) (label_filter select)]\<rparr> in
           case load_flags C json_loads feature_flag_refresh_enabled feature_flags acc of
             Inl err \<Rightarrow> (Inl err, s')
           | Inr acc' \<Rightarrow>
               (case raised of
                  Some err \<Rightarrow> (Inl err, s')
                | None \<Rightarrow>
                    load_flag_selects T C json_loads feature_flag_refresh_enabled selects acc' s')))"

definition load_feature_flags ::
  "transport \<Rightarrow> constants \<Rightarrow> (string \<Rightarrow> error + 'j) \<Rightarrow> SettingSelector list \<Rightarrow> bool \<Rightarrow> state
    \<Rightarrow> (error + 'j list \<times> sentinel_dict \<times> (string \<times> bool) list) \<times> state" where
  "load_feature_flags T C json_loads feature_flag_selectors feature_flag_refresh_enabled s =
     load_flag_selects T C json_loads feature_flag_refresh_enabled feature_flag_selectors
       ([], [], []) s"

section \<open>Refreshing\<close>

text \<open>
  \<^verbatim>\<open>refresh_configuration_settings\<close>, lines 197 to 225. \<^verbatim>\<open>dict(refresh_on)\<close> is a
  fresh dictionary that no one else can reach, so it is a local value. The loop body
  overwrites only the entry it is visiting, so the entries the loop visits are those
  of the copy as made on line 212. The call on line 223 passes \<^verbatim>\<open>refresh_on\<close> itself.
  Of the keyword arguments only \<^verbatim>\<open>sentinel_keys\<close> matters to this module; it is the
  parameter \<open>kw_sentinel_keys\<close>, which reaches \<^verbatim>\<open>load_configuration_settings\<close>.
\<close>

fun check_sentinels ::
  "transport \<Rightarrow> headers \<Rightarrow> (sentinel_key \<times> etag) list \<Rightarrow> bool \<Rightarrow> sentinel_dict \<Rightarrow> state
    \<Rightarrow> (error + bool \<times> sentinel_dict) \<times> state" where
  "check_sentinels T hs [] need_refresh updated_sentinel_keys s =
     (Inr (need_refresh, updated_sentinel_keys), s)"
| "check_sentinels T hs (((k, l), e) # items) need_refresh updated_sentinel_keys s =
     (case check_configuration_setting T k l e hs s of
        (Inl err, s') \<Rightarrow> (Inl err, s')
      | (Inr (changed, updated_sentinel), s') \<Rightarrow>
          check_sentinels T hs items
            (if changed then True else need_refresh)
            (case updated_sentinel of
               None \<Rightarrow> updated_sentinel_keys
             | Some u \<Rightarrow> AList.update (k, l) (etag u) updated_sentinel_keys)
            s')"

definition refresh_configuration_settings ::
  "transport \<Rightarrow> SettingSelector list \<Rightarrow> ref \<Rightarrow> headers \<Rightarrow> ref option \<Rightarrow> state
    \<Rightarrow> (error + bool \<times> ref \<times> setting list) \<times> state" where
  "refresh_configuration_settings T selects refresh_on hs kw_sentinel_keys s =
     (let updated_sentinel_keys = heap s refresh_on in
      case check_sentinels T hs updated_sentinel_keys False updated_sentinel_keys s of
        (Inl err, s') \<Rightarrow> (Inl err, s')
      | (Inr (need_refresh, _), s') \<Rightarrow>
          if need_refresh then
            (case load_configuration_settings T selects refresh_on kw_sentinel_keys s' of
               (Inl err, s'') \<Rightarrow> (Inl err, s'')
             | (Inr (configuration_settings, sentinel_keys), s'') \<Rightarrow>
                 (Inr (True, sentinel_keys, configuration_settings), s''))
          else (Inr (False, refresh_on, []), s'))"

text \<open>
  \<^verbatim>\<open>refresh_feature_flags\<close>, lines 228 to 254. Line 248 binds \<^verbatim>\<open>changed\<close> to the
  whole pair that \<^verbatim>\<open>_check_configuration_setting\<close> returns, and line 249 tests that
  pair: a Python tuple is true exactly when its length is not zero. The mapping
  \<^verbatim>\<open>refresh_on\<close> is only read (line 246 copies it), so it is passed as a value.
\<close>

definition tuple2_truth :: "'a \<times> 'b \<Rightarrow> bool" where
  "tuple2_truth t = ((2::nat) \<noteq> 0)"

fun check_feature_flag_sentinels ::
  "transport \<Rightarrow> constants \<Rightarrow> (string \<Rightarrow> error + 'j) \<Rightarrow> SettingSelector list \<Rightarrow> headers
    \<Rightarrow> (sentinel_key \<times> etag) list \<Rightarrow> state
    \<Rightarrow> (error + bool \<times> sentinel_dict option \<times> 'j list option \<times> (string \<times> bool) list) \<times> state" where
  "check_feature_flag_sentinels T C json_loads feature_flag_selectors hs [] s =
     (Inr (False, None, None, []), s)"
| "check_feature_flag_sentinels T C json_loads feature_flag_selectors hs (((k, l), e) # items) s =
     (case check_configuration_setting T k l e hs s of
        (Inl err, s') \<Rightarrow> (Inl err, s')
      | (Inr changed, s') \<Rightarrow>
          if tuple2_truth changed then
            (case load_feature_flags T C json_loads feature_flag_selectors True s' of
               (Inl err, s'') \<Rightarrow> (Inl err, s'')
             | (Inr (feature_flags, feature_flag_sentinel_keys, filters_used), s'') \<Rightarrow>
                 (Inr (True, Some feature_flag_sentinel_keys, Some feature_flags, filters_used), s''))
          else check_feature_flag_sentinels T C json_loads feature_flag_selectors hs items s')"

definition refresh_feature_flags ::
  "transport \<Rightarrow> constants \<Rightarrow> (string \<Rightarrow> error + 'j) \<Rightarrow> sentinel_dict \<Rightarrow> SettingSelector list
    \<Rightarrow> headers \<Rightarrow> state
    \<Rightarrow> (error + bool \<times> sentinel_dict option \<times> 'j list option \<times> (string \<times> bool) list) \<times> state" where
  "refresh_feature_flags T C json_loads refresh_on feature_flag_selectors hs s =
     check_feature_flag_sentinels T C json_loads feature_flag_selectors hs refresh_on s"

section \<open>The client wrappers and the manager\<close>

text \<open>
  Wrappers and SDK clients are mutable objects with an identity: the manager's list
  holds references to wrappers, and a wrapper holds a reference to its SDK client.
  The world keeps both kinds of object at addresses, with the next free address of
  each kind, and logs the calls of \<^verbatim>\<open>find_auto_failover_endpoints\<close>.
  Time stamps (Python floats) are real numbers here. The constructors of the SDK
  client are external; an SDK client object records how it was built and whether
  \<^verbatim>\<open>close()\<close> was called on it.
\<close>

type_synonym kwargs = "(string \<times> string) list"

datatype credential = TokenCredential string

datatype client_constructor =
    FromCredential string "credential option" string int int kwargs
  | FromConnectionString string string int int kwargs

record AzureAppConfigurationClient =
  constructed :: client_constructor
  closed :: bool

record ConfigurationClientWrapper =
  endpoint :: string
  client :: ref
  backoff_end_time :: real
  failed_attempts :: int

record world =
  wrappers :: "ref \<Rightarrow> ConfigurationClientWrapper"
  next_wrapper :: ref
  clients :: "ref \<Rightarrow> AzureAppConfigurationClient"
  next_client :: ref
  discovery_calls :: "(string \<times> bool) list"

record ConfigurationClientManager =
  replica_clients :: "ref list"
  original_endpoint :: string
  original_connection_string :: "string option"
  credential :: "credential option"
  user_agent :: string
  retry_total :: int
  retry_backoff_max :: int
  replica_discovery_enabled :: bool
  next_update_time :: real
  args :: kwargs
  min_backoff_sec :: int
  max_backoff_sec :: int

definition FALLBACK_CLIENT_REFRESH_EXPIRED_INTERVAL :: real where
  "FALLBACK_CLIENT_REFRESH_EXPIRED_INTERVAL = 3600"

definition MINIMAL_CLIENT_REFRESH_INTERVAL :: real where
  "MINIMAL_CLIENT_REFRESH_INTERVAL = 30"

text \<open>
  The dataclass constructor \<^verbatim>\<open>cls(endpoint, client)\<close> with the defaults of lines 43 and
  44, and the two class methods, lines 47 to 106.
\<close>

definition new_wrapper :: "string \<Rightarrow> client_constructor \<Rightarrow> world \<Rightarrow> ref \<times> world" where
  "new_wrapper ep how w =
     (let c = next_client w;
          r = next_wrapper w
      in (r, w\<lparr>wrappers := (wrappers w)(r :=
                  \<lparr>endpoint = ep, client = c, backoff_end_time = 0, failed_attempts = 0\<rparr>),
                next_wrapper := Suc r,
                clients := (clients w)(c := \<lparr>constructed = how, closed = False\<rparr>),
                next_client := Suc c\<rparr>))"

definition from_credential ::
  "string \<Rightarrow> credential option \<Rightarrow> string \<Rightarrow> int \<Rightarrow> int \<Rightarrow> kwargs \<Rightarrow> world \<Rightarrow> ref \<times> world" where
  "from_credential ep cred ua rt rbm kw w =
     new_wrapper ep (FromCredential ep cred ua rt rbm kw) w"

definition from_connection_string ::
  "string \<Rightarrow> string \<Rightarrow> string \<Rightarrow> int \<Rightarrow> int \<Rightarrow> kwargs \<Rightarrow> world \<Rightarrow> ref \<times> world" where
  "from_connection_string ep cs ua rt rbm kw w =
     new_wrapper ep (FromConnectionString cs ua rt rbm kw) w"

text \<open>
  Python's \<^verbatim>\<open>s.replace(old, new)\<close>: every occurrence of \<^verbatim>\<open>old\<close>, left to right
  and without overlap; an empty \<^verbatim>\<open>old\<close> matches before every character and at the
  end. A string is true when it is not empty, and \<^verbatim>\<open>None\<close> is false.
\<close>

function str_replace :: "string \<Rightarrow> string \<Rightarrow> string \<Rightarrow> string" where
  "str_replace old new s =
     (if old = [] then new @ concat (map (\<lambda>c. c # new) s)
      else if s = [] then []
      else if take (length old) s = old then new @ str_replace old new (drop (length old) s)
      else hd s # str_replace old new (tl s))"
  by pat_completeness auto
termination
  by (relation "measure (\<lambda>(old, new, s). length s)") auto

declare str_replace.simps [simp del]

definition str_truth :: "string \<Rightarrow> bool" where
  "str_truth s = (s \<noteq> [])"

subsection \<open>Construction\<close>


fun failover_from_credential ::
  "credential option \<Rightarrow> string \<Rightarrow> int \<Rightarrow> int \<Rightarrow> kwargs \<Rightarrow> string list \<Rightarrow> ref list \<Rightarrow> world
    \<Rightarrow> ref list \<times> world" where
  "failover_from_credential cred ua rt rbm kw [] rs w = (rs, w)"
| "failover_from_credential cred ua rt rbm kw (failover_endpoint # rest) rs w =
     (case from_credential failover_endpoint cred ua rt rbm kw w of
        (r, w') \<Rightarrow> failover_from_credential cred ua rt rbm kw rest (rs @ [r]) w')"


subsection \<open>Re-discovery\<close>

text \<open>
  \<^verbatim>\<open>refresh_clients\<close>, lines 353 to 405. The clock is read on line 356 and once more
  on line 362, 367 or 405; the two readings are the parameters \<open>t_check\<close> and
  \<open>t_set\<close>. The scan of lines 373 to 377 runs over the pool as it was before the
  rebuild and stops at the first wrapper with the endpoint.
\<close>

fun find_client :: "world \<Rightarrow> ref list \<Rightarrow> string \<Rightarrow> ref option" where
  "find_client w [] failover_endpoint = None"
| "find_client w (c # cs) failover_endpoint =
     (if endpoint (wrappers w c) = failover_endpoint then Some c
      else find_client w cs failover_endpoint)"

definition connect_failover :: "ConfigurationClientManager \<Rightarrow> string \<Rightarrow> world \<Rightarrow> ref \<times> world" where
  "connect_failover self failover_endpoint w =
     (let with_credential =
            from_credential failover_endpoint (credential self)
              (user_agent self) (retry_total self) (retry_backoff_max self) (args self) w
      in case original_connection_string self of
           None \<Rightarrow> with_credential
         | Some connection_string \<Rightarrow>
             if str_truth connection_string then
               from_connection_string failover_endpoint
                 (str_replace (original_endpoint self) failover_endpoint connection_string)
                 (user_agent self) (retry_total self) (retry_backoff_max self) (args self) w
             else with_credential)"

fun rebuild_clients :: "ConfigurationClientManager \<Rightarrow> string list \<Rightarrow> ref list \<Rightarrow> world \<Rightarrow> ref list \<times> world" where
  "rebuild_clients self [] new_clients w = (new_clients, w)"
| "rebuild_clients self (failover_endpoint # rest) new_clients w =
     (case find_client w (replica_clients self) failover_endpoint of
        Some c \<Rightarrow> rebuild_clients self rest (new_clients @ [c]) w
      | None \<Rightarrow>
          (case connect_failover self failover_endpoint w of
             (r, w') \<Rightarrow> rebuild_clients self rest (new_clients @ [r]) w'))"

definition refresh_clients ::
  "(string \<Rightarrow> bool \<Rightarrow> string list option) \<Rightarrow> real \<Rightarrow> real \<Rightarrow> ConfigurationClientManager \<Rightarrow> world
    \<Rightarrow> (error + unit) \<times> ConfigurationClientManager \<times> world" where
  "refresh_clients find_auto_failover_endpoints t_check t_set self w =
     (if \<not> replica_discovery_enabled self then (Inr (), self, w)
      else if next_update_time self > t_check then (Inr (), self, w)
      else
        (let w0 = w\<lparr>discovery_calls := discovery_calls w @
                     [(original_endpoint self, replica_discovery_enabled self)]\<rparr> in
         case find_auto_failover_endpoints (original_endpoint self)
                (replica_discovery_enabled self) of
           None \<Rightarrow>
             (Inr (),
              self\<lparr>next_update_time := t_set + FALLBACK_CLIENT_REFRESH_EXPIRED_INTERVAL\<rparr>, w0)
         | Some failover_endpoints \<Rightarrow>
             if length failover_endpoints = 0 then
               (Inr (), self\<lparr>next_update_time := t_set + MINIMAL_CLIENT_REFRESH_INTERVAL\<rparr>, w0)
             else
               (case replica_clients self of
                  [] \<Rightarrow> (Inl IndexError, self, w0)
                | original # _ \<Rightarrow>
                    (case rebuild_clients self failover_endpoints [original] w0 of
                       (new_clients, w1) \<Rightarrow>
                         (Inr (),
                          self\<lparr>replica_clients := new_clients,
                               next_update_time := t_set + MINIMAL_CLIENT_REFRESH_INTERVAL\<rparr>,
                          w1)))))"

subsection \<open>Backoff, equality and closing\<close>

text \<open>
  \<^verbatim>\<open>_calculate_backoff\<close>, lines 422 to 439. Python integers are unbounded, and
  \<^verbatim>\<open>1 << n\<close> raises \<^verbatim>\<open>ValueError\<close> for a negative \<^verbatim>\<open>n\<close>. The draw of
  \<^verbatim>\<open>random.uniform(0.0, 1.0)\<close> is the parameter \<open>u\<close>.
\<close>

definition calculate_backoff :: "ConfigurationClientManager \<Rightarrow> int \<Rightarrow> real \<Rightarrow> error + real" where
  "calculate_backoff self attempts u =
     (let max_attempts = 63;
          ms_per_second = 1000;
          min_backoff_milliseconds = min_backoff_sec self * ms_per_second;
          max_backoff_milliseconds = max_backoff_sec self * ms_per_second
      in if max_backoff_sec self \<le> min_backoff_sec self then
           Inr (of_int min_backoff_milliseconds)
         else if min attempts max_attempts < 0 then Inl ValueError
         else
           (let calculated_milliseconds =
                  max 1 min_backoff_milliseconds * (2 ^ nat (min attempts max_attempts));
                calculated_milliseconds' =
                  (if calculated_milliseconds > max_backoff_milliseconds
                      \<or> calculated_milliseconds \<le> 0
                   then max_backoff_milliseconds else calculated_milliseconds)
            in Inr (of_int min_backoff_milliseconds
                    + u * of_int (calculated_milliseconds' - min_backoff_milliseconds))))"

text \<open>\<^verbatim>\<open>is_active\<close> (line 275) and \<^verbatim>\<open>backoff\<close> (lines 414 to 417).\<close>

definition is_active :: "real \<Rightarrow> ConfigurationClientWrapper \<Rightarrow> bool" where
  "is_active now c = (backoff_end_time c \<le> now * 1000)"

definition backoff :: "ConfigurationClientManager \<Rightarrow> real \<Rightarrow> real \<Rightarrow> ref \<Rightarrow> world \<Rightarrow> (error + unit) \<times> world" where
  "backoff self now u c w =
     (let w1 = w\<lparr>wrappers := (wrappers w)(c :=
                  (wrappers w c)\<lparr>failed_attempts := failed_attempts (wrappers w c) + 1\<rparr>)\<rparr> in
      case calculate_backoff self (failed_attempts (wrappers w1 c)) u of
        Inl err \<Rightarrow> (Inl err, w1)
      | Inr backoff_time \<Rightarrow>
          (Inr (), w1\<lparr>wrappers := (wrappers w1)(c :=
                        (wrappers w1 c)\<lparr>backoff_end_time := now * 1000 + backoff_time\<rparr>)\<rparr>))"

text \<open>
  \<^verbatim>\<open>__eq__\<close>, lines 441 to 447. Two wrappers are compared by the equality the
  dataclass generates: field by field, the SDK clients by identity.
\<close>

definition manager_eq :: "world \<Rightarrow> ConfigurationClientManager \<Rightarrow> ConfigurationClientManager \<Rightarrow> bool" where
  "manager_eq w self other =
     (if length (replica_clients self) \<noteq> length (replica_clients other) then False
      else list_all (\<lambda>(a, b). \<not> (wrappers w a \<noteq> wrappers w b))
             (zip (replica_clients self) (replica_clients other)))"

text \<open>\<^verbatim>\<open>close\<close>, lines 449 to 451, with the wrapper's \<^verbatim>\<open>close\<close>, line 281.\<close>

definition wrapper_close :: "ref \<Rightarrow> world \<Rightarrow> world" where
  "wrapper_close r w =
     w\<lparr>clients := (clients w)(client (wrappers w r) :=
         (clients w (client (wrappers w r)))\<lparr>closed := True\<rparr>)\<rparr>"

fun close_clients :: "ref list \<Rightarrow> world \<Rightarrow> world" where
  "close_clients [] w = w"
| "close_clients (c # cs) w = close_clients cs (wrapper_close c w)"

definition close :: "ConfigurationClientManager \<Rightarrow> world \<Rightarrow> world" where
  "close self w = close_clients (replica_clients self) w"

section \<open>Concrete inputs\<close>

text \<open>
  A store client that gives the same answer to every conditional fetch and the same
  page to every listing, a setting, and a state with no request made yet.
\<close>

definition answering :: "(error + setting option) \<Rightarrow> setting list \<Rightarrow> transport" where
  "answering r page =
     \<lparr>client_get_configuration_setting = (\<lambda>_ _ _ _ _. r),
      client_list_configuration_settings = (\<lambda>_ _ _. (page, None))\<rparr>"

definition example_setting :: setting where
  "example_setting =
     \<lparr>key = ''color'', label = Some ''prod'', etag = Some ''e2'', setting_value = ''red'',
      setting_class = ConfigurationSetting\<rparr>"

definition empty_state :: state where
  "empty_state = \<lparr>heap = (\<lambda>_. []), calls = []\<rparr>"

text \<open>A manager built from a credential, with two wrappers in its pool.\<close>

definition example_manager :: ConfigurationClientManager where
  "example_manager =
     \<lparr>replica_clients = [0, 1], original_endpoint = ''https://store.example'',
      original_connection_string = None, credential = Some (TokenCredential ''token''),
      user_agent = ''agent'', retry_total = 3, retry_backoff_max = 60,
      replica_discovery_enabled = True, next_update_time = 100, args = [],
      min_backoff_sec = 30, max_backoff_sec = 600\<rparr>"

text \<open>
  A feature flag with one percentage filter, the names of \<^verbatim>\<open>_constants\<close>, a parser
  that returns the text it is given, a selector, and states in which the caller's
  watched-keys dictionary lives at address 0.
\<close>

definition example_flag :: setting where
  "example_flag =
     \<lparr>key = ''.appconfig.featureflag/beta'', label = Some ''prod'', etag = Some ''f1'',
      setting_value = ''{}'',
      setting_class =
        FeatureFlagConfigurationSetting (Some [Filter (Some ''Microsoft.Percentage'')])\<rparr>"

definition example_constants :: constants where
  "example_constants =
     \<lparr>FEATURE_FLAG_PREFIX = ''.appconfig.featureflag/'',
      PERCENTAGE_FILTER_NAMES = [''Percentage'', ''Microsoft.Percentage''],
      TIME_WINDOW_FILTER_NAMES = [''TimeWindow'', ''Microsoft.TimeWindow''],
      TARGETING_FILTER_NAMES = [''Targeting'', ''Microsoft.Targeting''],
      CUSTOM_FILTER_KEY = ''CSTM'', PERCENTAGE_FILTER_KEY = ''PRCNT'',
      TIME_WINDOW_FILTER_KEY = ''TIME'', TARGETING_FILTER_KEY = ''TRGT''\<rparr>"

definition example_json_loads :: "string \<Rightarrow> error + string" where
  "example_json_loads v = Inr v"

definition example_select :: SettingSelector where
  "example_select = \<lparr>key_filter = ''*'', label_filter = ''prod''\<rparr>"

definition watched_flags :: sentinel_dict where
  "watched_flags = [((''.appconfig.featureflag/beta'', Some ''prod''), Some ''f1'')]"


definition watching :: "sentinel_dict \<Rightarrow> state" where
  "watching d = \<lparr>heap = (\<lambda>r. if r = 0 then d else []), calls = []\<rparr>"

text \<open>
  A store in which the watched key \<open>color\<close> has a new value, the watched key
  \<open>gone\<close> was deleted and every other key is unchanged, and a dictionary that
  watches three keys.
\<close>

definition example_store :: transport where
  "example_store =
     \<lparr>client_get_configuration_setting =
        (\<lambda>_ k _ _ _. if k = ''color'' then Inr (Some example_setting)
                      else if k = ''gone'' then Inl (HttpResponseError (Some 404))
                      else Inr None),
      client_list_configuration_settings = (\<lambda>_ _ _. ([example_setting], None))\<rparr>"

definition three_watched :: sentinel_dict where
  "three_watched =
     [((''color'', Some ''prod''), Some ''e1''),
      ((''gone'', Some ''prod''), Some ''g1''),
      ((''size'', Some ''prod''), Some ''s1'')]"

text \<open>
  A discovery that always finds the given endpoints; a world with the two wrappers of
  \<open>example_manager\<close>, both with open clients, the second with two failed attempts
  and a backoff; and the outcome of a re-discovery that finds one endpoint, which
  the pool does not hold yet.
\<close>

definition discovering :: "string list option \<Rightarrow> string \<Rightarrow> bool \<Rightarrow> string list option" where
  "discovering found ep enabled = found"

definition example_world :: world where
  "example_world =
     \<lparr>wrappers = (\<lambda>r. if r = 0
         then \<lparr>endpoint = ''https://store.example'', client = 0,
               backoff_end_time = 0, failed_attempts = 0\<rparr>
         else \<lparr>endpoint = ''https://replica1.example'', client = 1,
               backoff_end_time = 5000, failed_attempts = 2\<rparr>),
      next_wrapper = 2,
      clients = (\<lambda>c. \<lparr>constructed =
         FromCredential (if c = 0 then ''https://store.example'' else ''https://replica1.example'')
           (Some (TokenCredential ''token'')) ''agent'' 3 60 [],
         closed = False\<rparr>),
      next_client = 2,
      discovery_calls = [(''https://store.example'', True)]\<rparr>"






section \<open>Notation for the statements\<close>

text \<open>
  The request that the check of a watched entry sends; the outcome of the check of
  the \<open>i\<close>-th watched entry, made after the entries before it were checked; the
  request that listing a selector sends.
\<close>

abbreviation sentinel_call :: "headers \<Rightarrow> sentinel_key \<times> etag \<Rightarrow> call" where
  "sentinel_call hs item \<equiv> GetCall (fst (fst item)) (snd (fst item)) (snd item) hs"

abbreviation nth_check ::
  "transport \<Rightarrow> headers \<Rightarrow> state \<Rightarrow> (sentinel_key \<times> etag) list \<Rightarrow> nat
    \<Rightarrow> error + bool \<times> setting option" where
  "nth_check T hs s items i \<equiv>
     fst (check_configuration_setting T (fst (fst (items ! i))) (snd (fst (items ! i)))
            (snd (items ! i)) hs
            (s\<lparr>calls := calls s @ map (sentinel_call hs) (take i items)\<rparr>))"

abbreviation select_call :: "SettingSelector \<Rightarrow> call" where
  "select_call select \<equiv> ListCall (key_filter select) (label_filter select)"



section \<open>Properties of the conditional check\<close>

text \<open>
  Claim C4. The conditional check is a total function of the store's answer: a
  returned setting gives \<open>(True, that setting)\<close>; not modified gives
  \<open>(False, None)\<close>; a 404 gives \<open>(True, None)\<close> when an etag was supplied and
  \<open>(False, None)\<close> when none was; every other exception is raised to the caller.
  In each case exactly one request is logged.
\<close>

theorem check_configuration_setting_cases:
  "(client_get_configuration_setting T (calls s) k l e hs = Inr (Some v) \<longrightarrow>
      fst (check_configuration_setting T k l e hs s) = Inr (True, Some v)) \<and>
   (client_get_configuration_setting T (calls s) k l e hs = Inr None \<longrightarrow>
      fst (check_configuration_setting T k l e hs s) = Inr (False, None)) \<and>
   (client_get_configuration_setting T (calls s) k l e hs = Inl (HttpResponseError (Some 404))
      \<and> e \<noteq> None \<longrightarrow>
      fst (check_configuration_setting T k l e hs s) = Inr (True, None)) \<and>
   (client_get_configuration_setting T (calls s) k l e hs = Inl (HttpResponseError (Some 404))
      \<and> e = None \<longrightarrow>
      fst (check_configuration_setting T k l e hs s) = Inr (False, None)) \<and>
   (client_get_configuration_setting T (calls s) k l e hs = Inl err
      \<and> err \<noteq> HttpResponseError (Some 404) \<longrightarrow>
      fst (check_configuration_setting T k l e hs s) = Inl err) \<and>
   snd (check_configuration_setting T k l e hs s) = s\<lparr>calls := calls s @ [GetCall k l e hs]\<rparr>"
  by (auto simp: check_configuration_setting_def Let_def
      split: sum.splits option.splits error.splits)

theorem check_configuration_setting_cases_witness:
  "fst (check_configuration_setting (answering (Inr (Some example_setting)) [])
          ''color'' (Some ''prod'') (Some ''e1'') [] empty_state)
     = Inr (True, Some example_setting) \<and>
   fst (check_configuration_setting (answering (Inr None) [])
          ''color'' (Some ''prod'') (Some ''e1'') [] empty_state) = Inr (False, None) \<and>
   fst (check_configuration_setting (answering (Inl (HttpResponseError (Some 404))) [])
          ''color'' (Some ''prod'') (Some ''e1'') [] empty_state) = Inr (True, None) \<and>
   fst (check_configuration_setting (answering (Inl (HttpResponseError (Some 404))) [])
          ''color'' (Some ''prod'') None [] empty_state) = Inr (False, None) \<and>
   fst (check_configuration_setting (answering (Inl (HttpResponseError (Some 503))) [])
          ''color'' (Some ''prod'') (Some ''e1'') [] empty_state)
     = Inl (HttpResponseError (Some 503)) \<and>
   calls (snd (check_configuration_setting (answering (Inr None) [])
          ''color'' (Some ''prod'') (Some ''e1'') [] empty_state))
     = [GetCall ''color'' (Some ''prod'') (Some ''e1'') []]"
  using
    check_configuration_setting_cases [of "answering (Inr (Some example_setting)) []"
      empty_state "''color''" "Some ''prod''" "Some ''e1''" "[]" example_setting]
    check_configuration_setting_cases [of "answering (Inr None) []"
      empty_state "''color''" "Some ''prod''" "Some ''e1''" "[]"]
    check_configuration_setting_cases [of "answering (Inl (HttpResponseError (Some 404))) []"
      empty_state "''color''" "Some ''prod''" "Some ''e1''" "[]"]
    check_configuration_setting_cases [of "answering (Inl (HttpResponseError (Some 404))) []"
      empty_state "''color''" "Some ''prod''" "None" "[]"]
    check_configuration_setting_cases [of "answering (Inl (HttpResponseError (Some 503))) []"
      empty_state "''color''" "Some ''prod''" "Some ''e1''" "[]" _ "HttpResponseError (Some 503)"]
  by (simp add: answering_def empty_state_def)

section \<open>Properties of the backoff delay\<close>



section \<open>Properties of loading and refreshing configuration settings\<close>

subsection \<open>The loops of the load\<close>

lemma load_configurations_settings:
  "fst (load_configurations ro sk cs acc s) = acc @ cs"
  by (induction cs arbitrary: acc s) auto

lemma load_configurations_calls:
  "calls (snd (load_configurations ro sk cs acc s)) = calls s"
  by (induction cs arbitrary: acc s) auto




lemma load_selects_step:
  "load_selects T ro sk (select # selects) acc s =
     (let page = client_list_configuration_settings T (calls s) (key_filter select) (label_filter select);
          s1 = snd (load_configurations ro sk (fst page) acc (s\<lparr>calls := calls s @ [select_call select]\<rparr>))
      in case snd page of
           Some err \<Rightarrow> (Inl err, s1)
         | None \<Rightarrow> load_selects T ro sk selects (acc @ fst page) s1)"
proof -
  obtain page raised where p:
    "client_list_configuration_settings T (calls s) (key_filter select) (label_filter select)
       = (page, raised)"
    by (cases "client_list_configuration_settings T (calls s) (key_filter select) (label_filter select)")
  obtain a s1 where l:
    "load_configurations ro sk page acc (s\<lparr>calls := calls s @ [select_call select]\<rparr>) = (a, s1)"
    by (cases "load_configurations ro sk page acc (s\<lparr>calls := calls s @ [select_call select]\<rparr>)")
  have a: "a = acc @ page"
    using load_configurations_settings [of ro sk page acc "s\<lparr>calls := calls s @ [select_call select]\<rparr>"] l
    by simp
  show ?thesis
    by (simp add: p l a Let_def split: option.splits)
qed



lemma load_selects_calls:
  "fst (load_selects T ro sk selects acc s) = Inr cfgs \<Longrightarrow>
     calls (snd (load_selects T ro sk selects acc s)) = calls s @ map select_call selects"
proof (induction selects arbitrary: acc s)
  case Nil
  then show ?case by simp
next
  case (Cons select selects)
  then show ?case
    by (simp add: load_selects_step Let_def load_configurations_calls split: option.splits
        del: load_selects.simps)
qed


subsection \<open>The loop of the checks\<close>

lemma check_configuration_setting_state:
  "snd (check_configuration_setting T k l e hs s) = s\<lparr>calls := calls s @ [GetCall k l e hs]\<rparr>"
  by (auto simp: check_configuration_setting_def Let_def
      split: sum.splits option.splits error.splits)

lemma check_sentinels_step:
  "check_sentinels T hs (item # items) need_refresh updated s =
     (case fst (check_configuration_setting T (fst (fst item)) (snd (fst item)) (snd item) hs s) of
        Inl err \<Rightarrow> (Inl err, s\<lparr>calls := calls s @ [sentinel_call hs item]\<rparr>)
      | Inr (changed, updated_sentinel) \<Rightarrow>
          check_sentinels T hs items (if changed then True else need_refresh)
            (case updated_sentinel of
               None \<Rightarrow> updated
             | Some u \<Rightarrow> AList.update (fst item) (etag u) updated)
            (s\<lparr>calls := calls s @ [sentinel_call hs item]\<rparr>))"
proof -
  obtain k l e where item: "item = ((k, l), e)" by (metis prod.collapse)
  obtain res s' where c: "check_configuration_setting T k l e hs s = (res, s')"
    by (cases "check_configuration_setting T k l e hs s")
  have s': "s' = s\<lparr>calls := calls s @ [GetCall k l e hs]\<rparr>"
    using check_configuration_setting_state [of T k l e hs s] c by simp
  show ?thesis
    unfolding item by (simp add: c s' split: sum.splits prod.splits option.splits)
qed


lemma check_sentinels_all_return:
  assumes "\<forall>i<length items. \<exists>c u. nth_check T hs s items i = Inr (c, u)"
  shows "\<exists>updated'. check_sentinels T hs items need_refresh updated s =
           (Inr (need_refresh \<or> (\<exists>i<length items. \<exists>u. nth_check T hs s items i = Inr (True, u)),
                 updated'),
            s\<lparr>calls := calls s @ map (sentinel_call hs) items\<rparr>)"
  using assms
proof (induction items arbitrary: need_refresh updated s)
  case Nil
  then show ?case by simp
next
  case (Cons item items)
  define s1 where "s1 = s\<lparr>calls := calls s @ [sentinel_call hs item]\<rparr>"
  have shift: "nth_check T hs s (item # items) (Suc i) = nth_check T hs s1 items i" for i
    by (simp add: s1_def)
  from Cons.prems have "\<exists>c u. nth_check T hs s (item # items) 0 = Inr (c, u)" by blast
  then obtain c u where first:
    "fst (check_configuration_setting T (fst (fst item)) (snd (fst item)) (snd item) hs s)
       = Inr (c, u)"
    by auto
  have later: "\<forall>i<length items. \<exists>c u. nth_check T hs s1 items i = Inr (c, u)"
  proof (intro allI impI)
    fix i assume "i < length items"
    then have "Suc i < length (item # items)" by simp
    with Cons.prems have "\<exists>c u. nth_check T hs s (item # items) (Suc i) = Inr (c, u)" by blast
    then show "\<exists>c u. nth_check T hs s1 items i = Inr (c, u)" by (simp only: shift)
  qed
  obtain updated' where ih:
    "check_sentinels T hs items (if c then True else need_refresh)
       (case u of None \<Rightarrow> updated | Some v \<Rightarrow> AList.update (fst item) (etag v) updated) s1 =
     (Inr ((if c then True else need_refresh)
             \<or> (\<exists>i<length items. \<exists>u. nth_check T hs s1 items i = Inr (True, u)), updated'),
      s1\<lparr>calls := calls s1 @ map (sentinel_call hs) items\<rparr>)"
    using Cons.IH [OF later] by blast
  have ex: "(\<exists>i<length (item # items). \<exists>u. nth_check T hs s (item # items) i = Inr (True, u))
      = (c \<or> (\<exists>i<length items. \<exists>u. nth_check T hs s1 items i = Inr (True, u)))"
    unfolding length_Cons Ex_less_Suc2 shift using first by simp
  have st: "s1\<lparr>calls := calls s1 @ map (sentinel_call hs) items\<rparr>
      = s\<lparr>calls := calls s @ map (sentinel_call hs) (item # items)\<rparr>"
    by (simp add: s1_def)
  have step: "check_sentinels T hs (item # items) need_refresh updated s =
      check_sentinels T hs items (if c then True else need_refresh)
       (case u of None \<Rightarrow> updated | Some v \<Rightarrow> AList.update (fst item) (etag v) updated) s1"
    unfolding check_sentinels_step first s1_def by simp
  have flag: "((if c then True else need_refresh)
             \<or> (\<exists>i<length items. \<exists>u. nth_check T hs s1 items i = Inr (True, u)))
      = (need_refresh \<or> (\<exists>i<length (item # items). \<exists>u. nth_check T hs s (item # items) i = Inr (True, u)))"
    unfolding ex by auto
  have "check_sentinels T hs (item # items) need_refresh updated s =
      (Inr (need_refresh \<or> (\<exists>i<length (item # items). \<exists>u. nth_check T hs s (item # items) i = Inr (True, u)),
            updated'),
       s\<lparr>calls := calls s @ map (sentinel_call hs) (item # items)\<rparr>)"
    unfolding step ih flag st ..
  then show ?case ..
qed



subsection \<open>The caller's dictionary\<close>




subsection \<open>One load for any number of changed keys\<close>

text \<open>
  Claim C5. When every check returns, \<^verbatim>\<open>refresh_configuration_settings\<close> checks every
  watched entry in order (one request each). If at least one check reports a change,
  the result is that of one call of \<^verbatim>\<open>load_configuration_settings\<close> with the given
  selectors and the caller's dictionary, made after all the checks, with \<open>True\<close> in
  front; a successful refresh of this kind has sent, after the checks, one listing
  request per selector and nothing else. If no check reports a change, the result is
  \<open>(False, refresh_on, [])\<close>.
\<close>

theorem refresh_configuration_settings_single_load:
  assumes "\<forall>i<length (heap s refresh_on). \<exists>c u. nth_check T hs s (heap s refresh_on) i = Inr (c, u)"
  shows "refresh_configuration_settings T selects refresh_on hs kw s =
     (if \<exists>i<length (heap s refresh_on). \<exists>u. nth_check T hs s (heap s refresh_on) i = Inr (True, u)
      then
        (case load_configuration_settings T selects refresh_on kw
                (s\<lparr>calls := calls s @ map (sentinel_call hs) (heap s refresh_on)\<rparr>) of
           (Inl err, s') \<Rightarrow> (Inl err, s')
         | (Inr (configuration_settings, sentinel_keys), s') \<Rightarrow>
             (Inr (True, sentinel_keys, configuration_settings), s'))
      else (Inr (False, refresh_on, []),
            s\<lparr>calls := calls s @ map (sentinel_call hs) (heap s refresh_on)\<rparr>))
     \<and> (\<forall>sk cfgs. fst (refresh_configuration_settings T selects refresh_on hs kw s)
             = Inr (True, sk, cfgs) \<longrightarrow>
           calls (snd (refresh_configuration_settings T selects refresh_on hs kw s))
             = calls s @ map (sentinel_call hs) (heap s refresh_on) @ map select_call selects)"
proof (rule conjI)
  define s1 where "s1 = s\<lparr>calls := calls s @ map (sentinel_call hs) (heap s refresh_on)\<rparr>"
  obtain updated' where c:
    "check_sentinels T hs (heap s refresh_on) False (heap s refresh_on) s =
       (Inr (False \<or> (\<exists>i<length (heap s refresh_on). \<exists>u.
                nth_check T hs s (heap s refresh_on) i = Inr (True, u)), updated'), s1)"
    unfolding s1_def using check_sentinels_all_return [OF assms] by blast
  show eq: "refresh_configuration_settings T selects refresh_on hs kw s =
     (if \<exists>i<length (heap s refresh_on). \<exists>u. nth_check T hs s (heap s refresh_on) i = Inr (True, u)
      then
        (case load_configuration_settings T selects refresh_on kw
                (s\<lparr>calls := calls s @ map (sentinel_call hs) (heap s refresh_on)\<rparr>) of
           (Inl err, s') \<Rightarrow> (Inl err, s')
         | (Inr (configuration_settings, sentinel_keys), s') \<Rightarrow>
             (Inr (True, sentinel_keys, configuration_settings), s'))
      else (Inr (False, refresh_on, []),
            s\<lparr>calls := calls s @ map (sentinel_call hs) (heap s refresh_on)\<rparr>))"
    unfolding s1_def [symmetric]
    by (simp add: refresh_configuration_settings_def c Let_def)
  show "\<forall>sk cfgs. fst (refresh_configuration_settings T selects refresh_on hs kw s)
             = Inr (True, sk, cfgs) \<longrightarrow>
           calls (snd (refresh_configuration_settings T selects refresh_on hs kw s))
             = calls s @ map (sentinel_call hs) (heap s refresh_on) @ map select_call selects"
  proof (intro allI impI)
    fix sk cfgs
    assume a: "fst (refresh_configuration_settings T selects refresh_on hs kw s) = Inr (True, sk, cfgs)"
    obtain res s2 where l:
      "load_selects T refresh_on (case kw of None \<Rightarrow> refresh_on | Some r \<Rightarrow> r) selects [] s1
         = (res, s2)"
      by (cases "load_selects T refresh_on (case kw of None \<Rightarrow> refresh_on | Some r \<Rightarrow> r)
                   selects [] s1")
    have r: "refresh_configuration_settings T selects refresh_on hs kw s =
        (case res of Inl err \<Rightarrow> (Inl err, s2)
         | Inr cs \<Rightarrow> (Inr (True, (case kw of None \<Rightarrow> refresh_on | Some r \<Rightarrow> r), cs), s2))
        \<or> refresh_configuration_settings T selects refresh_on hs kw s = (Inr (False, refresh_on, []), s1)"
      unfolding eq s1_def [symmetric]
      by (simp add: load_configuration_settings_def Let_def l split: sum.splits)
    with a have res: "res = Inr cfgs"
      and s2: "snd (refresh_configuration_settings T selects refresh_on hs kw s) = s2"
      by (auto split: sum.splits)
    from l res have "fst (load_selects T refresh_on (case kw of None \<Rightarrow> refresh_on | Some r \<Rightarrow> r)
        selects [] s1) = Inr cfgs" by simp
    from load_selects_calls [OF this] l
    show "calls (snd (refresh_configuration_settings T selects refresh_on hs kw s))
             = calls s @ map (sentinel_call hs) (heap s refresh_on) @ map select_call selects"
      unfolding s2 by (simp add: s1_def)
  qed
qed

theorem refresh_configuration_settings_single_load_witness:
  "refresh_configuration_settings example_store [example_select] 0 [] None
       (watching three_watched)
     = (case load_configuration_settings example_store [example_select] 0 None
               ((watching three_watched)\<lparr>calls :=
                  [GetCall ''color'' (Some ''prod'') (Some ''e1'') [],
                   GetCall ''gone'' (Some ''prod'') (Some ''g1'') [],
                   GetCall ''size'' (Some ''prod'') (Some ''s1'') []]\<rparr>) of
          (Inl err, s') \<Rightarrow> (Inl err, s')
        | (Inr (configuration_settings, sentinel_keys), s') \<Rightarrow>
            (Inr (True, sentinel_keys, configuration_settings), s')) \<and>
   fst (refresh_configuration_settings example_store [example_select] 0 [] None
          (watching three_watched)) = Inr (True, 0, [example_setting]) \<and>
   calls (snd (refresh_configuration_settings example_store [example_select] 0 [] None
          (watching three_watched)))
     = [GetCall ''color'' (Some ''prod'') (Some ''e1'') [],
        GetCall ''gone'' (Some ''prod'') (Some ''g1'') [],
        GetCall ''size'' (Some ''prod'') (Some ''s1'') [],
        ListCall ''*'' ''prod''] \<and>
   refresh_configuration_settings (answering (Inr None) [example_setting]) [example_select] 0 []
       None (watching three_watched)
     = (Inr (False, 0, []),
        (watching three_watched)\<lparr>calls :=
           [GetCall ''color'' (Some ''prod'') (Some ''e1'') [],
            GetCall ''gone'' (Some ''prod'') (Some ''g1'') [],
            GetCall ''size'' (Some ''prod'') (Some ''s1'') []]\<rparr>)"
proof -
  have len: "length (heap (watching three_watched) 0) = Suc (Suc (Suc 0))"
    by (simp add: watching_def three_watched_def)
  have h1: "\<forall>i<length (heap (watching three_watched) 0). \<exists>c u.
      nth_check example_store [] (watching three_watched) (heap (watching three_watched) 0) i
        = Inr (c, u)"
    unfolding len All_less_Suc
    by (auto simp: watching_def three_watched_def example_store_def check_configuration_setting_def)
  have h2: "\<forall>i<length (heap (watching three_watched) 0). \<exists>c u.
      nth_check (answering (Inr None) [example_setting]) [] (watching three_watched)
        (heap (watching three_watched) 0) i = Inr (c, u)"
    unfolding len All_less_Suc
    by (auto simp: watching_def three_watched_def answering_def check_configuration_setting_def)
  have changed: "\<exists>i<length (heap (watching three_watched) 0). \<exists>u.
      nth_check example_store [] (watching three_watched) (heap (watching three_watched) 0) i
        = Inr (True, u)"
    unfolding len Ex_less_Suc
    by (auto simp: watching_def three_watched_def example_store_def check_configuration_setting_def)
  have unchanged: "\<not> (\<exists>i<length (heap (watching three_watched) 0). \<exists>u.
      nth_check (answering (Inr None) [example_setting]) [] (watching three_watched)
        (heap (watching three_watched) 0) i = Inr (True, u))"
    unfolding len Ex_less_Suc
    by (auto simp: watching_def three_watched_def answering_def check_configuration_setting_def)
  have checks: "calls (watching three_watched) @
        map (sentinel_call []) (heap (watching three_watched) 0)
      = [GetCall ''color'' (Some ''prod'') (Some ''e1'') [],
         GetCall ''gone'' (Some ''prod'') (Some ''g1'') [],
         GetCall ''size'' (Some ''prod'') (Some ''s1'') []]"
    by (simp add: watching_def three_watched_def)
  note t1 = refresh_configuration_settings_single_load
    [OF h1, where selects = "[example_select]" and kw = None]
  note t2 = refresh_configuration_settings_single_load
    [OF h2, where selects = "[example_select]" and kw = None]
  have r1: "refresh_configuration_settings example_store [example_select] 0 [] None
       (watching three_watched)
     = (case load_configuration_settings example_store [example_select] 0 None
               ((watching three_watched)\<lparr>calls :=
                  [GetCall ''color'' (Some ''prod'') (Some ''e1'') [],
                   GetCall ''gone'' (Some ''prod'') (Some ''g1'') [],
                   GetCall ''size'' (Some ''prod'') (Some ''s1'') []]\<rparr>) of
          (Inl err, s') \<Rightarrow> (Inl err, s')
        | (Inr (configuration_settings, sentinel_keys), s') \<Rightarrow>
            (Inr (True, sentinel_keys, configuration_settings), s'))"
    using t1 [THEN conjunct1] unfolding if_P [OF changed] checks .
  have v1: "fst (refresh_configuration_settings example_store [example_select] 0 [] None
          (watching three_watched)) = Inr (True, 0, [example_setting])"
    unfolding r1
    by (simp add: load_configuration_settings_def example_store_def example_select_def
        watching_def three_watched_def example_setting_def dict_contains_def)
  have c1: "calls (snd (refresh_configuration_settings example_store [example_select] 0 [] None
          (watching three_watched)))
     = [GetCall ''color'' (Some ''prod'') (Some ''e1'') [],
        GetCall ''gone'' (Some ''prod'') (Some ''g1'') [],
        GetCall ''size'' (Some ''prod'') (Some ''s1'') [],
        ListCall ''*'' ''prod'']"
    using t1 [THEN conjunct2, rule_format, OF v1]
    by (simp add: watching_def three_watched_def example_select_def)
  have r2: "refresh_configuration_settings (answering (Inr None) [example_setting])
       [example_select] 0 [] None (watching three_watched)
     = (Inr (False, 0, []),
        (watching three_watched)\<lparr>calls :=
           [GetCall ''color'' (Some ''prod'') (Some ''e1'') [],
            GetCall ''gone'' (Some ''prod'') (Some ''g1'') [],
            GetCall ''size'' (Some ''prod'') (Some ''s1'') []]\<rparr>)"
    using t2 [THEN conjunct1] unfolding if_not_P [OF unchanged] checks .
  show ?thesis using r1 v1 c1 r2 by (intro conjI)
qed

section \<open>Properties of the feature-flag refresh\<close>

text \<open>
  Whatever the check of the first watched key reports, as long as it returns, the
  refresh reloads the feature flags and returns \<open>True\<close>; the other watched keys are
  never checked.
\<close>

lemma refresh_feature_flags_first_key:
  assumes "fst (check_configuration_setting T k l e hs s) = Inr report"
  shows "refresh_feature_flags T C json_loads (((k, l), e) # rest) feature_flag_selectors hs s =
     (case load_feature_flags T C json_loads feature_flag_selectors True
             (s\<lparr>calls := calls s @ [GetCall k l e hs]\<rparr>) of
        (Inl err, s') \<Rightarrow> (Inl err, s')
      | (Inr (feature_flags, feature_flag_sentinel_keys, filters_used), s') \<Rightarrow>
          (Inr (True, Some feature_flag_sentinel_keys, Some feature_flags, filters_used), s'))"
proof -
  have "check_configuration_setting T k l e hs s
      = (Inr report, s\<lparr>calls := calls s @ [GetCall k l e hs]\<rparr>)"
    using assms check_configuration_setting_state [of T k l e hs s]
    by (cases "check_configuration_setting T k l e hs s") simp
  then show ?thesis
    by (simp add: refresh_feature_flags_def tuple2_truth_def)
qed

text \<open>
  Claim C1 says that \<^verbatim>\<open>refresh_feature_flags\<close> reloads only upon finding a watched key
  that has changed, and returns \<open>(False, None, None, {})\<close> without a reload when the
  store reports not-modified for every watched key. The code does otherwise. Here
  one flag is watched and the store answers not-modified: the check itself reports
  \<open>(False, None)\<close>, yet the refresh lists the flags again (the second logged request)
  and returns \<open>True\<close> with the reloaded flags.
\<close>

theorem refresh_feature_flags_reloads_when_not_modified:
  "fst (check_configuration_setting (answering (Inr None) [example_flag])
          ''.appconfig.featureflag/beta'' (Some ''prod'') (Some ''f1'') [] empty_state)
     = Inr (False, None) \<and>
   refresh_feature_flags (answering (Inr None) [example_flag]) example_constants
       example_json_loads watched_flags [example_select] [] empty_state
     = (Inr (True, Some [((''.appconfig.featureflag/beta'', Some ''prod''), Some ''f1'')],
             Some [''{}''], [(''PRCNT'', True)]),
        empty_state\<lparr>calls :=
          [GetCall ''.appconfig.featureflag/beta'' (Some ''prod'') (Some ''f1'') [],
           ListCall ''.appconfig.featureflag/*'' ''prod'']\<rparr>)"
  by (simp add: refresh_feature_flags_def load_feature_flags_def check_configuration_setting_def
      tuple2_truth_def answering_def example_flag_def example_constants_def
      example_json_loads_def example_select_def watched_flags_def empty_state_def name_in_def)

section \<open>Properties of the re-discovery\<close>

subsection \<open>Allocation and the rebuild loop\<close>

lemma new_wrapper_result:
  "new_wrapper ep how w =
     (next_wrapper w,
      w\<lparr>wrappers := (wrappers w)(next_wrapper w :=
           \<lparr>endpoint = ep, client = next_client w, backoff_end_time = 0, failed_attempts = 0\<rparr>),
        next_wrapper := Suc (next_wrapper w),
        clients := (clients w)(next_client w := \<lparr>constructed = how, closed = False\<rparr>),
        next_client := Suc (next_client w)\<rparr>)"
  by (simp add: new_wrapper_def Let_def)

lemma connect_failover_new:
  "connect_failover self fe w =
     new_wrapper fe
       (case original_connection_string self of
          None \<Rightarrow> FromCredential fe (credential self) (user_agent self) (retry_total self)
                    (retry_backoff_max self) (args self)
        | Some cs \<Rightarrow>
            if str_truth cs
            then FromConnectionString (str_replace (original_endpoint self) fe cs)
                   (user_agent self) (retry_total self) (retry_backoff_max self) (args self)
            else FromCredential fe (credential self) (user_agent self) (retry_total self)
                   (retry_backoff_max self) (args self)) w"
  by (simp add: connect_failover_def from_credential_def from_connection_string_def Let_def
      split: option.splits)

lemma find_client_Some:
  "find_client w pool fe = Some c \<Longrightarrow> c \<in> set pool \<and> endpoint (wrappers w c) = fe"
  by (induction pool) (auto split: if_splits)

lemma find_client_None:
  "(find_client w pool fe = None) = (fe \<notin> (\<lambda>r. endpoint (wrappers w r)) ` set pool)"
  by (induction pool) auto

lemma find_client_cong:
  "\<forall>r\<in>set pool. wrappers w' r = wrappers w r \<Longrightarrow> find_client w' pool fe = find_client w pool fe"
  by (induction pool) auto

lemma rebuild_clients_step:
  "rebuild_clients self (fe # fes) new_clients w =
     (case find_client w (replica_clients self) fe of
        Some c \<Rightarrow> rebuild_clients self fes (new_clients @ [c]) w
      | None \<Rightarrow> rebuild_clients self fes (new_clients @ [fst (connect_failover self fe w)])
                  (snd (connect_failover self fe w)))"
  by (simp split: option.splits prod.splits)

lemma rebuild_clients_frame:
  "next_wrapper w \<le> next_wrapper (snd (rebuild_clients self fes new_clients w)) \<and>
   (\<forall>r<next_wrapper w. wrappers (snd (rebuild_clients self fes new_clients w)) r = wrappers w r) \<and>
   next_client w \<le> next_client (snd (rebuild_clients self fes new_clients w)) \<and>
   (\<forall>c<next_client w. clients (snd (rebuild_clients self fes new_clients w)) c = clients w c) \<and>
   discovery_calls (snd (rebuild_clients self fes new_clients w)) = discovery_calls w"
proof (induction fes arbitrary: new_clients w)
  case Nil
  then show ?case by simp
next
  case (Cons fe fes)
  show ?case
  proof (cases "find_client w (replica_clients self) fe")
    case (Some c)
    then show ?thesis using Cons.IH [where new_clients = "new_clients @ [c]" and w = w]
      by (simp add: rebuild_clients_step del: rebuild_clients.simps)
  next
    case None
    obtain how where h: "connect_failover self fe w = new_wrapper fe how w"
      using connect_failover_new [of self fe w] by simp
    define w1 where "w1 = snd (new_wrapper fe how w)"
    have w1: "next_wrapper w1 = Suc (next_wrapper w)" "next_client w1 = Suc (next_client w)"
      "\<forall>r<next_wrapper w. wrappers w1 r = wrappers w r"
      "\<forall>c<next_client w. clients w1 c = clients w c"
      "discovery_calls w1 = discovery_calls w"
      by (simp_all add: w1_def new_wrapper_result)
    have step: "rebuild_clients self (fe # fes) new_clients w =
        rebuild_clients self fes (new_clients @ [next_wrapper w]) w1"
      by (simp add: rebuild_clients_step None h w1_def new_wrapper_result
          del: rebuild_clients.simps)
    show ?thesis
      unfolding step using Cons.IH [where new_clients = "new_clients @ [next_wrapper w]" and w = w1] w1
      by auto
  qed
qed


lemma rebuild_clients_list:
  assumes "\<forall>r\<in>set (replica_clients self). r < next_wrapper w"
  shows "\<exists>added. fst (rebuild_clients self fes new_clients w) = new_clients @ added \<and>
           length added = length fes \<and>
           (\<forall>i<length fes.
              case find_client w (replica_clients self) (fes ! i) of
                Some c \<Rightarrow> added ! i = c
              | None \<Rightarrow> next_wrapper w \<le> added ! i)"
  using assms
proof (induction fes arbitrary: new_clients w)
  case Nil
  then show ?case by simp
next
  case (Cons fe fes)
  show ?case
  proof (cases "find_client w (replica_clients self) fe")
    case (Some c)
    have step: "rebuild_clients self (fe # fes) new_clients w =
        rebuild_clients self fes (new_clients @ [c]) w"
      by (simp add: rebuild_clients_step Some del: rebuild_clients.simps)
    from Cons.IH [OF Cons.prems, where new_clients = "new_clients @ [c]"]
    obtain added where a: "fst (rebuild_clients self fes (new_clients @ [c]) w)
          = (new_clients @ [c]) @ added"
      "length added = length fes"
      "\<forall>i<length fes.
          case find_client w (replica_clients self) (fes ! i) of
            Some c \<Rightarrow> added ! i = c
          | None \<Rightarrow> next_wrapper w \<le> added ! i"
      by blast
    have "\<forall>i<length (fe # fes).
          case find_client w (replica_clients self) ((fe # fes) ! i) of
            Some d \<Rightarrow> (c # added) ! i = d
          | None \<Rightarrow> next_wrapper w \<le> (c # added) ! i"
      unfolding length_Cons All_less_Suc2 using a(3) Some by (auto split: option.splits)
    with a(1,2) show ?thesis
      unfolding step by (intro exI [of _ "c # added"]) simp
  next
    case None
    define w1 where "w1 = snd (connect_failover self fe w)"
    have h: "connect_failover self fe w = (next_wrapper w, w1)"
      unfolding w1_def by (simp add: connect_failover_new new_wrapper_result)
    have w1: "next_wrapper w1 = Suc (next_wrapper w)"
      "\<forall>r<next_wrapper w. wrappers w1 r = wrappers w r"
      unfolding w1_def by (simp_all add: connect_failover_new new_wrapper_result)
    have valid1: "\<forall>r\<in>set (replica_clients self). r < next_wrapper w1"
      using Cons.prems w1(1) by auto
    have same: "find_client w1 (replica_clients self) x = find_client w (replica_clients self) x"
      for x
      using Cons.prems w1(2) by (intro find_client_cong) auto
    have step: "rebuild_clients self (fe # fes) new_clients w =
        rebuild_clients self fes (new_clients @ [next_wrapper w]) w1"
      by (simp add: rebuild_clients_step None h del: rebuild_clients.simps)
    from Cons.IH [OF valid1, where new_clients = "new_clients @ [next_wrapper w]"]
    obtain added where a: "fst (rebuild_clients self fes (new_clients @ [next_wrapper w]) w1)
          = (new_clients @ [next_wrapper w]) @ added"
      "length added = length fes"
      "\<forall>i<length fes.
          case find_client w (replica_clients self) (fes ! i) of
            Some c \<Rightarrow> added ! i = c
          | None \<Rightarrow> next_wrapper w1 \<le> added ! i"
      unfolding same by blast
    have later: "\<forall>i<length fes.
          case find_client w (replica_clients self) (fes ! i) of
            Some c \<Rightarrow> added ! i = c
          | None \<Rightarrow> next_wrapper w \<le> added ! i"
      using a(3) w1(1) by (auto split: option.splits)
    have "\<forall>i<length (fe # fes).
          case find_client w (replica_clients self) ((fe # fes) ! i) of
            Some d \<Rightarrow> (next_wrapper w # added) ! i = d
          | None \<Rightarrow> next_wrapper w \<le> (next_wrapper w # added) ! i"
      unfolding length_Cons All_less_Suc2 using later None by (auto split: option.splits)
    with a(1,2) show ?thesis
      unfolding step by (intro exI [of _ "next_wrapper w # added"]) simp
  qed
qed

lemma rebuild_clients_all_found:
  "\<forall>fe\<in>set fes. find_client w (replica_clients self) fe \<noteq> None \<Longrightarrow>
     snd (rebuild_clients self fes new_clients w) = w"
proof (induction fes arbitrary: new_clients)
  case Nil
  then show ?case by simp
next
  case (Cons fe fes)
  from Cons.prems obtain c where c: "find_client w (replica_clients self) fe = Some c"
    by auto
  from Cons.prems have "\<forall>fe\<in>set fes. find_client w (replica_clients self) fe \<noteq> None" by simp
  from Cons.IH [OF this] show ?case
    by (simp add: rebuild_clients_step c del: rebuild_clients.simps)
qed

lemma refresh_clients_rebuild:
  assumes "replica_discovery_enabled self" and "next_update_time self \<le> t_check"
    and "find_auto_failover_endpoints (original_endpoint self) True = Some fes"
    and "fes \<noteq> []"
    and "replica_clients self = original # others"
  shows "refresh_clients find_auto_failover_endpoints t_check t_set self w =
     (Inr (),
      self\<lparr>replica_clients :=
             fst (rebuild_clients self fes [original]
                    (w\<lparr>discovery_calls := discovery_calls w @ [(original_endpoint self, True)]\<rparr>)),
           next_update_time := t_set + MINIMAL_CLIENT_REFRESH_INTERVAL\<rparr>,
      snd (rebuild_clients self fes [original]
             (w\<lparr>discovery_calls := discovery_calls w @ [(original_endpoint self, True)]\<rparr>)))"
  using assms
  by (simp add: refresh_clients_def Let_def split: prod.splits)

lemma example_refresh_due:
  "replica_discovery_enabled example_manager"
  "next_update_time example_manager \<le> 200"
  "replica_clients example_manager = 0 # [1]"
  "\<forall>r\<in>set (replica_clients example_manager). r < next_wrapper example_world"
  "endpoint (wrappers example_world 0) = original_endpoint example_manager"
  by (simp_all add: example_manager_def example_world_def)

subsection \<open>Wrappers are reused\<close>

text \<open>
  Claim C7. When \<^verbatim>\<open>refresh_clients\<close> rebuilds the pool from a non-empty list of
  discovered endpoints, the wrapper that was first in the pool is first in the new
  pool; for every discovered endpoint that a wrapper of the old pool has, the new
  pool holds at that position a wrapper of the old pool with that endpoint; and no
  wrapper that existed before the rebuild is changed, so \<^verbatim>\<open>failed_attempts\<close> and
  \<^verbatim>\<open>backoff_end_time\<close> are kept. In particular, when every discovered endpoint is
  already in the pool, no wrapper is created and no wrapper is changed.
\<close>

theorem refresh_clients_reuses_wrappers:
  fixes find_auto_failover_endpoints t_check t_set self w
  defines "self' \<equiv> fst (snd (refresh_clients find_auto_failover_endpoints t_check t_set self w))"
    and "w' \<equiv> snd (snd (refresh_clients find_auto_failover_endpoints t_check t_set self w))"
  assumes enabled: "replica_discovery_enabled self"
    and due: "next_update_time self \<le> t_check"
    and found: "find_auto_failover_endpoints (original_endpoint self) True = Some fes"
    and nonempty: "fes \<noteq> []"
    and pool: "replica_clients self = original # others"
    and valid: "\<forall>r\<in>set (replica_clients self). r < next_wrapper w"
  shows "fst (refresh_clients find_auto_failover_endpoints t_check t_set self w) = Inr () \<and>
         replica_clients self' ! 0 = original \<and>
         length (replica_clients self') = Suc (length fes) \<and>
         (\<forall>i<length fes. \<forall>r\<in>set (replica_clients self).
            endpoint (wrappers w r) = fes ! i \<longrightarrow>
              replica_clients self' ! Suc i \<in> set (replica_clients self) \<and>
              endpoint (wrappers w (replica_clients self' ! Suc i)) = fes ! i) \<and>
         (\<forall>r<next_wrapper w. wrappers w' r = wrappers w r) \<and>
         (set fes \<subseteq> (\<lambda>r. endpoint (wrappers w r)) ` set (replica_clients self) \<longrightarrow>
            wrappers w' = wrappers w \<and>
            set (replica_clients self') \<subseteq> set (replica_clients self))"
proof -
  define w0 where
    "w0 = w\<lparr>discovery_calls := discovery_calls w @ [(original_endpoint self, True)]\<rparr>"
  have r: "refresh_clients find_auto_failover_endpoints t_check t_set self w =
     (Inr (),
      self\<lparr>replica_clients := fst (rebuild_clients self fes [original] w0),
           next_update_time := t_set + MINIMAL_CLIENT_REFRESH_INTERVAL\<rparr>,
      snd (rebuild_clients self fes [original] w0))"
    unfolding w0_def by (rule refresh_clients_rebuild [where find_auto_failover_endpoints = find_auto_failover_endpoints,
        OF enabled due found nonempty pool])
  have new: "replica_clients self' = fst (rebuild_clients self fes [original] w0)"
    and w': "w' = snd (rebuild_clients self fes [original] w0)"
    unfolding self'_def w'_def r by simp_all
  have valid0: "\<forall>r\<in>set (replica_clients self). r < next_wrapper w0"
    using valid by (simp add: w0_def)
  have find0: "find_client w0 (replica_clients self) x = find_client w (replica_clients self) x"
    for x
    by (intro find_client_cong) (simp add: w0_def)
  from rebuild_clients_list [OF valid0, of fes "[original]"]
  obtain added where a: "replica_clients self' = [original] @ added"
    "length added = length fes"
    "\<forall>i<length fes.
        case find_client w (replica_clients self) (fes ! i) of
          Some c \<Rightarrow> added ! i = c
        | None \<Rightarrow> next_wrapper w0 \<le> added ! i"
    unfolding new find0 by blast
  have reuse: "replica_clients self' ! Suc i \<in> set (replica_clients self) \<and>
        endpoint (wrappers w (replica_clients self' ! Suc i)) = fes ! i"
    if i: "i < length fes" and x: "x \<in> set (replica_clients self)"
      and e: "endpoint (wrappers w x) = fes ! i" for i x
  proof -
    from x have "endpoint (wrappers w x)
        \<in> (\<lambda>r. endpoint (wrappers w r)) ` set (replica_clients self)" by (rule imageI)
    then have "find_client w (replica_clients self) (fes ! i) \<noteq> None"
      unfolding e by (simp add: find_client_None)
    then obtain c where c: "find_client w (replica_clients self) (fes ! i) = Some c" by auto
    with a(3) i have "added ! i = c" by auto
    then have "replica_clients self' ! Suc i = c" by (simp add: a(1))
    with find_client_Some [OF c] show ?thesis by simp
  qed
  have frame: "\<forall>r<next_wrapper w. wrappers w' r = wrappers w r"
    using rebuild_clients_frame [of w0 self fes "[original]"]
    unfolding w' by (simp add: w0_def)
  have same: "wrappers w' = wrappers w \<and> set (replica_clients self') \<subseteq> set (replica_clients self)"
    if sub: "set fes \<subseteq> (\<lambda>r. endpoint (wrappers w r)) ` set (replica_clients self)"
  proof -
    have all: "\<forall>fe\<in>set fes. find_client w0 (replica_clients self) fe \<noteq> None"
      unfolding find0 using sub by (auto simp: find_client_None)
    have "w' = w0" unfolding w' by (rule rebuild_clients_all_found [OF all])
    then have 1: "wrappers w' = wrappers w" by (simp add: w0_def)
    have "added ! i \<in> set (replica_clients self)" if i: "i < length fes" for i
    proof -
      from all i have "find_client w (replica_clients self) (fes ! i) \<noteq> None"
        unfolding find0 by simp
      then obtain c where c: "find_client w (replica_clients self) (fes ! i) = Some c" by auto
      with a(3) i have "added ! i = c" by auto
      with find_client_Some [OF c] show ?thesis by simp
    qed
    then have "set added \<subseteq> set (replica_clients self)"
      unfolding a(2) [symmetric] by (auto simp: in_set_conv_nth)
    with pool have 2: "set (replica_clients self') \<subseteq> set (replica_clients self)"
      by (simp add: a(1))
    from 1 2 show ?thesis ..
  qed
  have "fst (refresh_clients find_auto_failover_endpoints t_check t_set self w) = Inr ()"
    unfolding r by simp
  moreover have "replica_clients self' ! 0 = original" by (simp add: a(1))
  moreover have "length (replica_clients self') = Suc (length fes)" by (simp add: a(1,2))
  ultimately show ?thesis using reuse frame same by blast
qed

theorem refresh_clients_reuses_wrappers_witness:
  "replica_clients (fst (snd (refresh_clients
      (discovering (Some [''https://replica1.example'', ''https://replica2.example'']))
      200 201 example_manager example_world))) = [0, 1, 2] \<and>
   wrappers (snd (snd (refresh_clients
      (discovering (Some [''https://replica1.example'', ''https://replica2.example'']))
      200 201 example_manager example_world))) 1
     = \<lparr>endpoint = ''https://replica1.example'', client = 1,
        backoff_end_time = 5000, failed_attempts = 2\<rparr>"
proof -
  have found: "discovering (Some [''https://replica1.example'', ''https://replica2.example''])
      (original_endpoint example_manager) True
        = Some [''https://replica1.example'', ''https://replica2.example'']"
    by (simp add: discovering_def)
  have nonempty: "[''https://replica1.example'', ''https://replica2.example''] \<noteq> []" by simp
  note t = refresh_clients_reuses_wrappers
    [where find_auto_failover_endpoints =
       "discovering (Some [''https://replica1.example'', ''https://replica2.example''])"
     and t_set = 201,
     OF example_refresh_due(1) example_refresh_due(2) found nonempty
       example_refresh_due(3) example_refresh_due(4)]
  have one: "(1::nat) < next_wrapper example_world" by (simp add: example_world_def)
  from t one have "wrappers (snd (snd (refresh_clients
      (discovering (Some [''https://replica1.example'', ''https://replica2.example'']))
      200 201 example_manager example_world))) 1 = wrappers example_world 1"
    by blast
  moreover have "wrappers example_world 1
     = \<lparr>endpoint = ''https://replica1.example'', client = 1,
        backoff_end_time = 5000, failed_attempts = 2\<rparr>"
    by (simp add: example_world_def)
  moreover have "replica_clients (fst (snd (refresh_clients
      (discovering (Some [''https://replica1.example'', ''https://replica2.example'']))
      200 201 example_manager example_world))) = [0, 1, 2]"
    by (simp add: refresh_clients_def discovering_def example_manager_def example_world_def
        connect_failover_def from_credential_def new_wrapper_def Let_def)
  ultimately show ?thesis by simp
qed

subsection \<open>The original endpoint among the discovered ones\<close>

text \<open>
  Claim C10. When the discovered endpoints contain the original endpoint itself,
  the rebuilt pool holds the original wrapper at position 0 and once more at the
  position of that endpoint: the original wrapper occurs at least twice, so the
  pool is not free of repetitions, neither by wrapper nor by endpoint.
\<close>

theorem refresh_clients_duplicates_original:
  fixes find_auto_failover_endpoints t_check t_set self w
  defines "self' \<equiv> fst (snd (refresh_clients find_auto_failover_endpoints t_check t_set self w))"
    and "w' \<equiv> snd (snd (refresh_clients find_auto_failover_endpoints t_check t_set self w))"
  assumes enabled: "replica_discovery_enabled self"
    and due: "next_update_time self \<le> t_check"
    and found: "find_auto_failover_endpoints (original_endpoint self) True = Some fes"
    and listed: "original_endpoint self \<in> set fes"
    and pool: "replica_clients self = original # others"
    and first: "endpoint (wrappers w original) = original_endpoint self"
    and valid: "\<forall>r\<in>set (replica_clients self). r < next_wrapper w"
  shows "fst (refresh_clients find_auto_failover_endpoints t_check t_set self w) = Inr () \<and>
         replica_clients self' ! 0 = original \<and>
         (\<exists>i<length fes. fes ! i = original_endpoint self \<and>
                          replica_clients self' ! Suc i = original) \<and>
         2 \<le> count_list (replica_clients self') original \<and>
         \<not> distinct (replica_clients self') \<and>
         \<not> distinct (map (\<lambda>r. endpoint (wrappers w' r)) (replica_clients self'))"
proof -
  define w0 where
    "w0 = w\<lparr>discovery_calls := discovery_calls w @ [(original_endpoint self, True)]\<rparr>"
  from listed have nonempty: "fes \<noteq> []" by auto
  have r: "refresh_clients find_auto_failover_endpoints t_check t_set self w =
     (Inr (),
      self\<lparr>replica_clients := fst (rebuild_clients self fes [original] w0),
           next_update_time := t_set + MINIMAL_CLIENT_REFRESH_INTERVAL\<rparr>,
      snd (rebuild_clients self fes [original] w0))"
    unfolding w0_def by (rule refresh_clients_rebuild [where find_auto_failover_endpoints = find_auto_failover_endpoints,
        OF enabled due found nonempty pool])
  have new: "replica_clients self' = fst (rebuild_clients self fes [original] w0)"
    unfolding self'_def r by simp
  have valid0: "\<forall>r\<in>set (replica_clients self). r < next_wrapper w0"
    using valid by (simp add: w0_def)
  have find0: "find_client w0 (replica_clients self) x = find_client w (replica_clients self) x"
    for x
    by (intro find_client_cong) (simp add: w0_def)
  from rebuild_clients_list [OF valid0, of fes "[original]"]
  obtain added where a: "replica_clients self' = [original] @ added"
    "length added = length fes"
    "\<forall>i<length fes.
        case find_client w (replica_clients self) (fes ! i) of
          Some c \<Rightarrow> added ! i = c
        | None \<Rightarrow> next_wrapper w0 \<le> added ! i"
    unfolding new find0 by blast
  from listed obtain i where i: "i < length fes" "fes ! i = original_endpoint self"
    by (auto simp: in_set_conv_nth)
  have "find_client w (replica_clients self) (fes ! i) = Some original"
    by (simp add: pool first i(2))
  with a(3) i(1) have ai: "added ! i = original" by auto
  then have again: "replica_clients self' ! Suc i = original" by (simp add: a(1))
  from ai i(1) a(2) have "original \<in> set added" by (metis nth_mem)
  then have "count_list added original \<noteq> 0" by (simp only: count_list_0_iff not_not)
  then have "0 < count_list added original" by simp
  then have cnt: "2 \<le> count_list (replica_clients self') original" by (simp add: a(1))
  from \<open>original \<in> set added\<close> have nd: "\<not> distinct (replica_clients self')"
    by (simp add: a(1))
  have "fst (refresh_clients find_auto_failover_endpoints t_check t_set self w) = Inr ()"
    unfolding r by simp
  moreover have "replica_clients self' ! 0 = original" by (simp add: a(1))
  moreover from nd
  have "\<not> distinct (map (\<lambda>r. endpoint (wrappers w' r)) (replica_clients self'))"
    by (simp add: distinct_map)
  ultimately show ?thesis using i again cnt nd by blast
qed

theorem refresh_clients_duplicates_original_witness:
  "replica_clients (fst (snd (refresh_clients
      (discovering (Some [''https://store.example'']))
      200 201 example_manager example_world))) = [0, 0] \<and>
   \<not> distinct (replica_clients (fst (snd (refresh_clients
      (discovering (Some [''https://store.example'']))
      200 201 example_manager example_world)))) \<and>
   map (\<lambda>r. endpoint (wrappers (snd (snd (refresh_clients
          (discovering (Some [''https://store.example'']))
          200 201 example_manager example_world))) r))
     (replica_clients (fst (snd (refresh_clients
        (discovering (Some [''https://store.example'']))
        200 201 example_manager example_world))))
     = [''https://store.example'', ''https://store.example'']"
proof -
  have found: "discovering (Some [''https://store.example''])
      (original_endpoint example_manager) True = Some [''https://store.example'']"
    by (simp add: discovering_def)
  have listed: "original_endpoint example_manager \<in> set [''https://store.example'']"
    by (simp add: example_manager_def)
  note t = refresh_clients_duplicates_original
    [where find_auto_failover_endpoints = "discovering (Some [''https://store.example''])"
     and t_set = 201,
     OF example_refresh_due(1) example_refresh_due(2) found listed
       example_refresh_due(3) example_refresh_due(5) example_refresh_due(4)]
  have pool: "replica_clients (fst (snd (refresh_clients
      (discovering (Some [''https://store.example'']))
      200 201 example_manager example_world))) = [0, 0]"
    by (simp add: refresh_clients_def discovering_def example_manager_def example_world_def
        Let_def)
  have "map (\<lambda>r. endpoint (wrappers (snd (snd (refresh_clients
          (discovering (Some [''https://store.example'']))
          200 201 example_manager example_world))) r))
     (replica_clients (fst (snd (refresh_clients
        (discovering (Some [''https://store.example'']))
        200 201 example_manager example_world))))
     = [''https://store.example'', ''https://store.example'']"
    unfolding pool
    by (simp add: refresh_clients_def discovering_def example_manager_def example_world_def
        Let_def)
  with pool t show ?thesis by blast
qed

subsection \<open>When the pool is left alone\<close>

lemma manager_eq_same_pool:
  "replica_clients a = replica_clients b \<Longrightarrow> manager_eq w a b"
  by (auto simp: manager_eq_def list_all_iff zip_same)

text \<open>
  Claim C8. \<^verbatim>\<open>refresh_clients\<close> returns without any effect, and without calling the
  discovery, when discovery is disabled or the clock has not reached
  \<^verbatim>\<open>_next_update_time\<close>. When the discovery returns \<^verbatim>\<open>None\<close> the next attempt is
  set to the clock plus the fallback interval of 3600 seconds, and when it
  returns an empty list to the clock plus the minimal interval of 30 seconds;
  the only other effect is the logged discovery call. In all four cases the pool
  and the wrappers are as before, and the manager after the call equals the manager
  before it.
\<close>

theorem refresh_clients_pool_unchanged:
  fixes find_auto_failover_endpoints t_check t_set self w
  defines "result \<equiv> refresh_clients find_auto_failover_endpoints t_check t_set self w"
  shows
    "(\<not> replica_discovery_enabled self \<or> t_check < next_update_time self \<longrightarrow>
        result = (Inr (), self, w)) \<and>
     (replica_discovery_enabled self \<and> next_update_time self \<le> t_check \<and>
      find_auto_failover_endpoints (original_endpoint self) True = None \<longrightarrow>
        result = (Inr (),
          self\<lparr>next_update_time := t_set + FALLBACK_CLIENT_REFRESH_EXPIRED_INTERVAL\<rparr>,
          w\<lparr>discovery_calls := discovery_calls w @ [(original_endpoint self, True)]\<rparr>)) \<and>
     (replica_discovery_enabled self \<and> next_update_time self \<le> t_check \<and>
      find_auto_failover_endpoints (original_endpoint self) True = Some [] \<longrightarrow>
        result = (Inr (),
          self\<lparr>next_update_time := t_set + MINIMAL_CLIENT_REFRESH_INTERVAL\<rparr>,
          w\<lparr>discovery_calls := discovery_calls w @ [(original_endpoint self, True)]\<rparr>)) \<and>
     (\<not> replica_discovery_enabled self \<or> t_check < next_update_time self \<or>
      find_auto_failover_endpoints (original_endpoint self) True = None \<or>
      find_auto_failover_endpoints (original_endpoint self) True = Some [] \<longrightarrow>
        replica_clients (fst (snd result)) = replica_clients self \<and>
        wrappers (snd (snd result)) = wrappers w \<and>
        manager_eq (snd (snd result)) (fst (snd result)) self)"
proof -
  have a: "result = (Inr (), self, w)"
    if "\<not> replica_discovery_enabled self \<or> t_check < next_update_time self"
    using that unfolding result_def by (auto simp: refresh_clients_def)
  have b: "result = (Inr (),
          self\<lparr>next_update_time := t_set + FALLBACK_CLIENT_REFRESH_EXPIRED_INTERVAL\<rparr>,
          w\<lparr>discovery_calls := discovery_calls w @ [(original_endpoint self, True)]\<rparr>)"
    if "replica_discovery_enabled self \<and> next_update_time self \<le> t_check \<and>
      find_auto_failover_endpoints (original_endpoint self) True = None"
    using that unfolding result_def by (simp add: refresh_clients_def Let_def)
  have c: "result = (Inr (),
          self\<lparr>next_update_time := t_set + MINIMAL_CLIENT_REFRESH_INTERVAL\<rparr>,
          w\<lparr>discovery_calls := discovery_calls w @ [(original_endpoint self, True)]\<rparr>)"
    if "replica_discovery_enabled self \<and> next_update_time self \<le> t_check \<and>
      find_auto_failover_endpoints (original_endpoint self) True = Some []"
    using that unfolding result_def by (simp add: refresh_clients_def Let_def)
  have d: "replica_clients (fst (snd result)) = replica_clients self \<and>
        wrappers (snd (snd result)) = wrappers w \<and>
        manager_eq (snd (snd result)) (fst (snd result)) self"
    if h: "\<not> replica_discovery_enabled self \<or> t_check < next_update_time self \<or>
      find_auto_failover_endpoints (original_endpoint self) True = None \<or>
      find_auto_failover_endpoints (original_endpoint self) True = Some []"
  proof -
    consider "\<not> replica_discovery_enabled self \<or> t_check < next_update_time self"
      | "replica_discovery_enabled self \<and> next_update_time self \<le> t_check \<and>
          find_auto_failover_endpoints (original_endpoint self) True = None"
      | "replica_discovery_enabled self \<and> next_update_time self \<le> t_check \<and>
          find_auto_failover_endpoints (original_endpoint self) True = Some []"
      using h by fastforce
    then show ?thesis
    proof cases
      case 1
      from a [OF 1] show ?thesis by (simp add: manager_eq_same_pool)
    next
      case 2
      from b [OF 2] show ?thesis by (simp add: manager_eq_same_pool)
    next
      case 3
      from c [OF 3] show ?thesis by (simp add: manager_eq_same_pool)
    qed
  qed
  from a b c d show ?thesis by blast
qed

theorem refresh_clients_pool_unchanged_witness:
  "refresh_clients (discovering (Some [''https://replica2.example''])) 200 201
       (example_manager\<lparr>replica_discovery_enabled := False\<rparr>) example_world
     = (Inr (), example_manager\<lparr>replica_discovery_enabled := False\<rparr>, example_world) \<and>
   refresh_clients (discovering (Some [''https://replica2.example''])) 50 51
       example_manager example_world
     = (Inr (), example_manager, example_world) \<and>
   refresh_clients (discovering None) 200 201 example_manager example_world
     = (Inr (), example_manager\<lparr>next_update_time := 3801\<rparr>,
        example_world\<lparr>discovery_calls :=
          [(''https://store.example'', True), (''https://store.example'', True)]\<rparr>) \<and>
   refresh_clients (discovering (Some [])) 200 201 example_manager example_world
     = (Inr (), example_manager\<lparr>next_update_time := 231\<rparr>,
        example_world\<lparr>discovery_calls :=
          [(''https://store.example'', True), (''https://store.example'', True)]\<rparr>) \<and>
   manager_eq (snd (snd (refresh_clients (discovering None) 200 201 example_manager example_world)))
     (fst (snd (refresh_clients (discovering None) 200 201 example_manager example_world)))
     example_manager"
proof -
  have off: "\<not> replica_discovery_enabled (example_manager\<lparr>replica_discovery_enabled := False\<rparr>)
      \<or> 200 < next_update_time (example_manager\<lparr>replica_discovery_enabled := False\<rparr>)"
    by simp
  have early: "\<not> replica_discovery_enabled example_manager
      \<or> 50 < next_update_time example_manager"
    by (simp add: example_manager_def)
  have unknown: "replica_discovery_enabled example_manager
      \<and> next_update_time example_manager \<le> 200
      \<and> discovering None (original_endpoint example_manager) True = None"
    by (simp add: example_manager_def discovering_def)
  have none: "replica_discovery_enabled example_manager
      \<and> next_update_time example_manager \<le> 200
      \<and> discovering (Some []) (original_endpoint example_manager) True = Some []"
    by (simp add: example_manager_def discovering_def)
  have any: "\<not> replica_discovery_enabled example_manager
      \<or> 200 < next_update_time example_manager
      \<or> discovering None (original_endpoint example_manager) True = None
      \<or> discovering None (original_endpoint example_manager) True = Some []"
    by (simp add: discovering_def)
  have calls: "discovery_calls example_world @ [(original_endpoint example_manager, True)]
      = [(''https://store.example'', True), (''https://store.example'', True)]"
    by (simp add: example_world_def example_manager_def)
  have times: "201 + FALLBACK_CLIENT_REFRESH_EXPIRED_INTERVAL = 3801"
    "201 + MINIMAL_CLIENT_REFRESH_INTERVAL = 231"
    by (simp_all add: FALLBACK_CLIENT_REFRESH_EXPIRED_INTERVAL_def
        MINIMAL_CLIENT_REFRESH_INTERVAL_def)
  note t = refresh_clients_pool_unchanged [where w = example_world and t_set = 201]
  from t [where find_auto_failover_endpoints = "discovering (Some [''https://replica2.example''])"
          and t_check = 200, THEN conjunct1, rule_format, OF off]
    refresh_clients_pool_unchanged
      [where find_auto_failover_endpoints = "discovering (Some [''https://replica2.example''])"
         and t_check = 50 and t_set = 51 and w = example_world,
       THEN conjunct1, rule_format, OF early]
    t [where find_auto_failover_endpoints = "discovering None" and t_check = 200,
       THEN conjunct2, THEN conjunct1, rule_format, OF unknown]
    t [where find_auto_failover_endpoints = "discovering (Some [])" and t_check = 200,
       THEN conjunct2, THEN conjunct2, THEN conjunct1, rule_format, OF none]
    t [where find_auto_failover_endpoints = "discovering None" and t_check = 200,
       THEN conjunct2, THEN conjunct2, THEN conjunct2, rule_format, OF any]
  show ?thesis
    unfolding calls times by blast
qed

subsection \<open>Dropped wrappers and closing\<close>




lemma close_clients_wrappers:
  "wrappers (close_clients rs w) = wrappers w"
  by (induction rs arbitrary: w) (simp_all add: wrapper_close_def)






section \<open>Properties of the construction\<close>



lemma failover_from_credential_length:
  "length (fst (failover_from_credential cred ua rt rbm kw fes rs w)) = length rs + length fes"
  by (induction fes arbitrary: rs w) (simp_all split: prod.splits)






end
